theory Spec2Isabelle
  imports Main "HOL-Library.Sublist"
begin

section \<open>Python strings\<close>

text \<open>
  The program works on Python \<open>str\<close> values. A text is modelled as a \<open>string\<close> whose
  characters are the code points U+0000 to U+00FF, one \<open>char\<close> per code point, so
  \<open>length\<close> counts what Python's \<open>len\<close> counts. The string methods below are the
  restrictions of Python's \<open>str.lower\<close>, \<open>str.strip\<close> and \<open>in\<close> to such texts.
\<close>

definition lower_char :: "char \<Rightarrow> char" where
  \<comment> \<open>\<open>A\<close>..\<open>Z\<close> and U+00C0..U+00DE (without the multiplication sign U+00D7) have a
      lower-case partner 32 code points up; every other code point below 256 is kept.\<close>
  "lower_char c =
     (let n = (of_char c :: nat)
      in if (65 \<le> n \<and> n \<le> 90) \<or> (192 \<le> n \<and> n \<le> 222 \<and> n \<noteq> 215)
         then char_of (n + 32) else c)"

definition lower :: "string \<Rightarrow> string" where
  "lower text = map lower_char text"

definition isspace :: "char \<Rightarrow> bool" where
  \<comment> \<open>The code points below 256 for which \<open>str.isspace\<close> holds: U+0009..U+000D,
      U+001C..U+0020, U+0085 and U+00A0.\<close>
  "isspace c =
     (let n = (of_char c :: nat)
      in (9 \<le> n \<and> n \<le> 13) \<or> (28 \<le> n \<and> n \<le> 32) \<or> n = 133 \<or> n = 160)"

definition strip :: "string \<Rightarrow> string" where
  "strip text = rev (dropWhile isspace (rev (dropWhile isspace text)))"

fun str_in :: "string \<Rightarrow> string \<Rightarrow> bool" where
  \<comment> \<open>\<open>phrase in text\<close> on two strings: \<open>phrase\<close> occurs at some position of \<open>text\<close>.\<close>
  "str_in phrase [] = (phrase = [])"
| "str_in phrase (c # cs) = (prefix phrase (c # cs) \<or> str_in phrase cs)"

section \<open>The pattern tables\<close>

definition PRIORITY_KEYWORDS_high :: "string list" where
  "PRIORITY_KEYWORDS_high =
     [''urgent'', ''important'', ''asap'', ''immediately'', ''critical'', ''today'']"

definition PRIORITY_KEYWORDS_medium :: "string list" where
  "PRIORITY_KEYWORDS_medium = [''soon'', ''this week'', ''next few days'']"

definition LOW_PRIORITY_PHRASES :: "string list" where
  "LOW_PRIORITY_PHRASES =
     [''not urgent'', ''no urgency'', ''low priority'', ''not important'']"

section \<open>Priority extraction\<close>

fun any_in :: "string list \<Rightarrow> string \<Rightarrow> bool" where
  \<comment> \<open>The loop \<open>for phrase in table: if phrase in text: return ...\<close>: does it return?\<close>
  "any_in [] text = False"
| "any_in (phrase # rest) text = (if str_in phrase text then True else any_in rest text)"

definition extract_priority :: "string \<Rightarrow> string" where
  "extract_priority text0 =
     (let text = lower text0
      in if any_in LOW_PRIORITY_PHRASES text then ''low''
         else if any_in PRIORITY_KEYWORDS_high text then ''high''
         else if any_in PRIORITY_KEYWORDS_medium text then ''medium''
         else ''medium'')"

section \<open>Deadline patterns\<close>

text \<open>
  The seven deadline patterns use literals, \<open>\d+\<close>, non-capturing alternation and
  concatenation only. \<open>regex\<close> is the syntax tree \<open>re.compile\<close> builds for them.
\<close>

datatype regex = Lit string | Digits | Alt "regex list" | Seq regex regex

definition isdigit :: "char \<Rightarrow> bool" where
  \<comment> \<open>\<open>\d\<close> on a \<open>str\<close> pattern: a decimal digit; below U+0100 these are \<open>0\<close>..\<open>9\<close>.\<close>
  "isdigit c = (let n = (of_char c :: nat) in 48 \<le> n \<and> n \<le> 57)"

definition weekdays :: "regex" where
  "weekdays = Alt [Lit ''monday'', Lit ''tuesday'', Lit ''wednesday'', Lit ''thursday'',
                   Lit ''friday'', Lit ''saturday'', Lit ''sunday'']"

definition DEADLINE_REGEXES :: "regex list" where
  "DEADLINE_REGEXES =
     [Lit ''today'',
      Lit ''tomorrow'',
      Seq (Lit ''within '') (Seq Digits (Seq (Lit '' '')
        (Alt [Lit ''day'', Lit ''days'', Lit ''week'', Lit ''weeks'', Lit ''month'', Lit ''months'']))),
      Seq (Lit ''by '') weekdays,
      Seq (Lit ''this '') weekdays,
      Seq (Lit ''next '') weekdays,
      Seq (Lit ''next '') (Alt [Lit ''week'', Lit ''month''])]"

text \<open>
  \<open>matches r s\<close> lists what is left of \<open>s\<close> after each way \<open>r\<close> can match at the start
  of \<open>s\<close>, in the order the backtracking matcher tries them: the alternatives of a
  group from left to right, \<open>\d+\<close> from the longest run of digits down to one digit.
\<close>

fun matches :: "regex \<Rightarrow> string \<Rightarrow> string list" where
  "matches (Lit l) s = (if prefix l s then [drop (length l) s] else [])"
| "matches Digits s = map (\<lambda>k. drop k s) (rev [1 ..< Suc (length (takeWhile isdigit s))])"
| "matches (Alt rs) s = concat (map (\<lambda>r. matches r s) rs)"
| "matches (Seq a b) s = concat (map (matches b) (matches a s))"

fun search :: "regex \<Rightarrow> string \<Rightarrow> string option" where
  \<comment> \<open>\<open>regex.search(text)\<close> followed by \<open>m.group()\<close>: the match at the leftmost
      position that has one, \<open>None\<close> when no position has.\<close>
  "search r [] = (case matches r [] of [] \<Rightarrow> None | rest # _ \<Rightarrow> Some [])"
| "search r (c # cs) =
     (case matches r (c # cs) of
        [] \<Rightarrow> search r cs
      | rest # _ \<Rightarrow> Some (take (length (c # cs) - length rest) (c # cs)))"

fun first_match :: "regex list \<Rightarrow> string \<Rightarrow> string" where
  "first_match [] text = ''unspecified''"
| "first_match (r # rs) text =
     (case search r text of Some m \<Rightarrow> m | None \<Rightarrow> first_match rs text)"

definition extract_deadline :: "string \<Rightarrow> string" where
  "extract_deadline text = first_match DEADLINE_REGEXES (lower text)"

text \<open>
  The words a pattern stands for, as the pattern is read: a literal is itself, \<open>\d+\<close>
  is any non-empty run of digits, a group is any of its alternatives, a sequence is a
  word of the first part followed by a word of the second.
\<close>

fun lang :: "regex \<Rightarrow> string set" where
  "lang (Lit l) = {l}"
| "lang Digits = {ds. ds \<noteq> [] \<and> list_all isdigit ds}"
| "lang (Alt rs) = \<Union> (set (map lang rs))"
| "lang (Seq a b) = {w. \<exists>u v. w = u @ v \<and> u \<in> lang a \<and> v \<in> lang b}"

definition occurs :: "regex \<Rightarrow> string \<Rightarrow> bool" where
  \<comment> \<open>the pattern matches somewhere in the text\<close>
  "occurs r text = (\<exists>m. m \<in> lang r \<and> sublist m text)"

section \<open>Python values, exceptions and the task record\<close>

text \<open>
  \<open>pyval\<close> holds the values \<open>json.load\<close> can return: \<open>None\<close>, booleans, integers,
  floats (a mantissa and an exponent; no operation of the program looks at them),
  strings, lists and dictionaries with string keys, a dictionary as its items in
  insertion order. The fields of a \<open>Task\<close> are annotated \<open>str\<close>, but building a
  \<open>Task\<close> from the keywords of a file record stores whatever value the file holds,
  so a field is a \<open>pyval\<close>.
\<close>

datatype pyval =
    PNone
  | PBool bool
  | PInt int
  | PFloat int int
  | PStr string
  | PList "pyval list"
  | PDict "(string \<times> pyval) list"

datatype exn =
    JSONDecodeError | UnicodeDecodeError | TypeError | KeyError | AttributeError
  | IndexError

record Task =
  raw_text :: pyval
  deadline :: pyval
  priority :: pyval

definition parse_task :: "string \<Rightarrow> Task" where
  "parse_task user_input =
     \<lparr>raw_text = PStr (strip user_input),
      deadline = PStr (extract_deadline user_input),
      priority = PStr (extract_priority user_input)\<rparr>"

section \<open>Storage\<close>

text \<open>
  \<open>tasks.json\<close> is the only file the program touches. Its state is \<open>None\<close> when the
  file does not exist and otherwise what reading it gives: bytes that are not UTF-8
  (\<open>json.load\<close> calls \<open>f.read()\<close>, which raises \<open>UnicodeDecodeError\<close>), text that is
  not a JSON document (\<open>json.load\<close> raises \<open>JSONDecodeError\<close>), or the value of the
  JSON document. \<open>json.dump\<close> followed by \<open>json.load\<close> gives the dumped value back;
  the file holds that value. Failures of the operating system while opening, reading
  or writing, and documents that exhaust a limit of the interpreter (nesting depth,
  digits of an integer), are outside the model.
\<close>

datatype file_content = NotUtf8 | NotJson | Json pyval

type_synonym disk = "file_content option"

definition task_dict :: "Task \<Rightarrow> pyval" where
  \<comment> \<open>\<open>task.__dict__\<close>\<close>
  "task_dict t =
     PDict [(''raw_text'', raw_text t), (''deadline'', deadline t), (''priority'', priority t)]"

definition save_tasks :: "Task list \<Rightarrow> disk" where
  \<comment> \<open>the file after \<open>save_tasks(tasks)\<close>, whatever it was before\<close>
  "save_tasks tasks = Some (Json (PList (map task_dict tasks)))"

fun py_iter :: "pyval \<Rightarrow> exn + pyval list" where
  \<comment> \<open>\<open>for item in data\<close>: a string gives its characters, a dictionary its keys\<close>
  "py_iter (PList xs) = Inr xs"
| "py_iter (PStr s) = Inr (map (\<lambda>c. PStr [c]) s)"
| "py_iter (PDict kvs) = Inr (map (\<lambda>kv. PStr (fst kv)) kvs)"
| "py_iter _ = Inl TypeError"

fun py_contains :: "string \<Rightarrow> pyval \<Rightarrow> exn + bool" where
  \<comment> \<open>\<open>key in item\<close> for a string \<open>key\<close>\<close>
  "py_contains key (PStr s) = Inr (str_in key s)"
| "py_contains key (PList xs) = Inr (PStr key \<in> set xs)"
| "py_contains key (PDict kvs) = Inr (key \<in> set (map fst kvs))"
| "py_contains key _ = Inl TypeError"

fun py_getitem :: "pyval \<Rightarrow> string \<Rightarrow> exn + pyval" where
  \<comment> \<open>\<open>item[key]\<close> for a string \<open>key\<close>\<close>
  "py_getitem (PDict kvs) key =
     (case map_of kvs key of None \<Rightarrow> Inl KeyError | Some v \<Rightarrow> Inr v)"
| "py_getitem _ key = Inl TypeError"

fun py_get :: "pyval \<Rightarrow> string \<Rightarrow> pyval \<Rightarrow> exn + pyval" where
  \<comment> \<open>\<open>item.get(key, default)\<close>\<close>
  "py_get (PDict kvs) key dflt =
     Inr (case map_of kvs key of None \<Rightarrow> dflt | Some v \<Rightarrow> v)"
| "py_get _ key dflt = Inl AttributeError"

fun Task_kwargs :: "pyval \<Rightarrow> exn + Task" where
  \<comment> \<open>\<open>Task\<close> called with the items of \<open>item\<close> as keywords: the generated
      \<open>__init__\<close> has the three parameters and no defaults, so an unexpected or a
      missing keyword is a \<open>TypeError\<close>, as is an \<open>item\<close> that is not a mapping.\<close>
  "Task_kwargs (PDict kvs) =
     (if set (map fst kvs) \<subseteq> {''raw_text'', ''deadline'', ''priority''}
      then (case map_of kvs ''raw_text'' of
              None \<Rightarrow> Inl TypeError
            | Some r \<Rightarrow>
               (case map_of kvs ''deadline'' of
                  None \<Rightarrow> Inl TypeError
                | Some d \<Rightarrow>
                   (case map_of kvs ''priority'' of
                      None \<Rightarrow> Inl TypeError
                    | Some p \<Rightarrow> Inr \<lparr>raw_text = r, deadline = d, priority = p\<rparr>)))
      else Inl TypeError)"
| "Task_kwargs _ = Inl TypeError"

definition legacy_task :: "pyval \<Rightarrow> exn + Task" where
  \<comment> \<open>the old schema: \<open>Task(raw_text=item["description"], deadline=item.get(...),
      priority=item.get(...))\<close>, the arguments evaluated from left to right\<close>
  "legacy_task item =
     (case py_getitem item ''description'' of
        Inl e \<Rightarrow> Inl e
      | Inr r \<Rightarrow>
         (case py_get item ''deadline'' (PStr ''unspecified'') of
            Inl e \<Rightarrow> Inl e
          | Inr d \<Rightarrow>
             (case py_get item ''priority'' (PStr ''medium'') of
                Inl e \<Rightarrow> Inl e
              | Inr p \<Rightarrow> Inr \<lparr>raw_text = r, deadline = d, priority = p\<rparr>)))"

definition load_item :: "pyval \<Rightarrow> exn + Task option" where
  \<comment> \<open>the body of the loop: the task to append, or \<open>None\<close> when the item is passed over\<close>
  "load_item item =
     (case py_contains ''raw_text'' item of
        Inl e \<Rightarrow> Inl e
      | Inr True \<Rightarrow> map_sum id Some (Task_kwargs item)
      | Inr False \<Rightarrow>
         (case py_contains ''description'' item of
            Inl e \<Rightarrow> Inl e
          | Inr True \<Rightarrow> map_sum id Some (legacy_task item)
          | Inr False \<Rightarrow> Inr None))"

fun load_loop :: "pyval list \<Rightarrow> Task list \<Rightarrow> exn + Task list" where
  "load_loop [] tasks = Inr tasks"
| "load_loop (item # rest) tasks =
     (case load_item item of
        Inl e \<Rightarrow> Inl e
      | Inr None \<Rightarrow> load_loop rest tasks
      | Inr (Some t) \<Rightarrow> load_loop rest (tasks @ [t]))"

fun load_body :: "file_content \<Rightarrow> exn + Task list" where
  \<comment> \<open>the \<open>try\<close> block\<close>
  "load_body NotUtf8 = Inl UnicodeDecodeError"
| "load_body NotJson = Inl JSONDecodeError"
| "load_body (Json data) =
     (case py_iter data of Inl e \<Rightarrow> Inl e | Inr items \<Rightarrow> load_loop items [])"

definition load_tasks :: "disk \<Rightarrow> exn + Task list" where
  "load_tasks d =
     (case d of
        None \<Rightarrow> Inr []
      | Some content \<Rightarrow>
         (case load_body content of
            Inl e \<Rightarrow> if e \<in> {JSONDecodeError, TypeError, KeyError} then Inr [] else Inl e
          | Inr tasks \<Rightarrow> Inr tasks))"

section \<open>Task operations\<close>

text \<open>
  The operations change the list in memory, the file and the console. \<open>state\<close> holds
  the three; a printed line is recorded by what it says, not by its characters.
  \<open>PriorityLine p\<close> is the line that shows \<open>p.upper()\<close>.
\<close>

datatype line =
    EmptyTaskWarning | TaskAdded | NoTasks | TasksHeader | Rule
  | TitleLine nat pyval | DeadlineLine pyval | PriorityLine string | Blank
  | NoTasksToDelete | Deleted pyval | InvalidNumber | EnterANumber

record state =
  store :: "Task list"
  disk_file :: disk
  printed :: "line list"

definition add_task :: "string \<Rightarrow> state \<Rightarrow> state" where
  \<comment> \<open>\<open>typed\<close> is the line \<open>input\<close> returns\<close>
  "add_task typed st =
     (let text = strip typed
      in if text = [] then st\<lparr>printed := printed st @ [EmptyTaskWarning]\<rparr>
         else let ts = store st @ [parse_task text]
              in st\<lparr>store := ts, disk_file := save_tasks ts, printed := printed st @ [TaskAdded]\<rparr>)"





section \<open>Notions of the specification\<close>

text \<open>
  The predicates below are not part of the program. They say what the specification
  means by an unrecognised record, a valid record, the priority a file record stores,
  a store whose priorities are strings (the type the \<open>Task\<close> class declares), and the
  phrases the seven deadline patterns describe, in the order they are listed.
\<close>

fun unrecognised :: "pyval \<Rightarrow> bool" where
  \<comment> \<open>a record that has neither the current nor the legacy schema\<close>
  "unrecognised (PDict kvs) =
     (''raw_text'' \<notin> set (map fst kvs) \<and> ''description'' \<notin> set (map fst kvs))"
| "unrecognised _ = False"

fun nonempty_str :: "pyval \<Rightarrow> bool" where
  "nonempty_str (PStr s) = (s \<noteq> [])"
| "nonempty_str _ = False"

definition valid_task :: "Task \<Rightarrow> bool" where
  "valid_task t =
     (nonempty_str (raw_text t) \<and> nonempty_str (deadline t) \<and>
      priority t \<in> {PStr ''low'', PStr ''medium'', PStr ''high''})"






fun starts_non_space :: "regex \<Rightarrow> bool" where
  \<comment> \<open>the pattern begins with a literal whose first character is not white space\<close>
  "starts_non_space (Lit l) = (l \<noteq> [] \<and> \<not> isspace (hd l))"
| "starts_non_space (Seq a b) = starts_non_space a"
| "starts_non_space _ = False"

definition weekday_names :: "string set" where
  "weekday_names = {''monday'', ''tuesday'', ''wednesday'', ''thursday'', ''friday'',
                    ''saturday'', ''sunday''}"

definition deadline_phrases :: "string set list" where
  "deadline_phrases =
     [{''today''},
      {''tomorrow''},
      {''within '' @ n @ '' '' @ u | n u. n \<noteq> [] \<and> list_all isdigit n \<and>
         u \<in> {''day'', ''days'', ''week'', ''weeks'', ''month'', ''months''}},
      {''by '' @ d | d. d \<in> weekday_names},
      {''this '' @ d | d. d \<in> weekday_names},
      {''next '' @ d | d. d \<in> weekday_names},
      {''next week'', ''next month''}]"


section \<open>Substring tests and the priority levels\<close>

lemma str_in_iff_sublist: "str_in p s \<longleftrightarrow> sublist p s"
  by (induction s) (auto simp: sublist_Cons_right)

lemma any_in_iff: "any_in ps text \<longleftrightarrow> (\<exists>p\<in>set ps. sublist p text)"
  by (induction ps) (auto simp: str_in_iff_sublist)


text \<open>
  C5. A text whose lower-cased form contains one of the phrases \<open>not urgent\<close>,
  \<open>no urgency\<close>, \<open>low priority\<close>, \<open>not important\<close> has priority \<open>low\<close>, whatever
  other keywords it contains; \<open>urgent but not important\<close> is such a text.
\<close>

theorem low_priority_override:
  "(p \<in> {''not urgent'', ''no urgency'', ''low priority'', ''not important''} \<and>
    sublist p (lower text) \<longrightarrow> extract_priority text = ''low'') \<and>
   extract_priority ''urgent but not important'' = ''low''"
proof (intro conjI impI)
  assume h: "p \<in> {''not urgent'', ''no urgency'', ''low priority'', ''not important''} \<and>
    sublist p (lower text)"
  then have "p \<in> set LOW_PRIORITY_PHRASES" by (simp add: LOW_PRIORITY_PHRASES_def)
  with h have "any_in LOW_PRIORITY_PHRASES (lower text)" unfolding any_in_iff by blast
  then show "extract_priority text = ''low''" by (simp add: extract_priority_def)
next
  show "extract_priority ''urgent but not important'' = ''low''"
    by (simp add: extract_priority_def lower_def lower_char_def LOW_PRIORITY_PHRASES_def)
qed

theorem low_priority_override_witness:
  "sublist ''not important'' (lower ''This is URGENT but Not Important'') \<and>
   sublist ''urgent'' (lower ''This is URGENT but Not Important'') \<and>
   extract_priority ''This is URGENT but Not Important'' = ''low''"
proof -
  have a: "sublist ''not important'' (lower ''This is URGENT but Not Important'')"
    unfolding str_in_iff_sublist [symmetric] by code_simp
  have b: "sublist ''urgent'' (lower ''This is URGENT but Not Important'')"
    unfolding str_in_iff_sublist [symmetric] by code_simp
  from a b low_priority_override [of "''not important''" "''This is URGENT but Not Important''"]
  show ?thesis by simp
qed

section \<open>Which exceptions leave the loading loop\<close>

lemma legacy_task_exn: "legacy_task item = Inl e \<Longrightarrow> e \<in> {TypeError, KeyError}"
  by (cases item) (auto simp: legacy_task_def split: option.splits)

lemma Task_kwargs_exn: "Task_kwargs item = Inl e \<Longrightarrow> e = TypeError"
  by (cases item) (auto split: option.splits if_splits)

lemma py_contains_exn: "py_contains k item = Inl e \<Longrightarrow> e = TypeError"
  by (cases item) auto

lemma load_item_exn: "load_item item = Inl e \<Longrightarrow> e \<in> {TypeError, KeyError}"
  unfolding load_item_def
  by (auto split: sum.splits bool.splits dest: py_contains_exn Task_kwargs_exn legacy_task_exn
      simp: map_sum_def)

lemma load_loop_exn: "load_loop items acc = Inl e \<Longrightarrow> e \<in> {TypeError, KeyError}"
  by (induction items arbitrary: acc) (auto split: sum.splits option.splits dest: load_item_exn)

lemma py_iter_exn: "py_iter data = Inl e \<Longrightarrow> e = TypeError"
  by (cases data) auto

lemma load_body_Json_exn: "load_body (Json data) = Inl e \<Longrightarrow> e \<in> {TypeError, KeyError}"
  by (auto split: sum.splits dest: py_iter_exn load_loop_exn)

text \<open>
  Every file that can be decoded is loaded without an exception: a missing file, text
  that is not JSON and a document of any shape all give a list.
\<close>

lemma load_tasks_missing_file: "load_tasks None = Inr []"
  by (simp add: load_tasks_def)

lemma load_tasks_not_json: "load_tasks (Some NotJson) = Inr []"
  by (simp add: load_tasks_def)

lemma load_tasks_decodable_returns:
  "content \<noteq> NotUtf8 \<Longrightarrow> \<exists>ts. load_tasks (Some content) = Inr ts"
proof (cases content)
  case (Json data)
  show ?thesis
  proof (cases "load_body (Json data)")
    case (Inl e)
    then have "e \<in> {TypeError, KeyError}" by (rule load_body_Json_exn)
    with Inl Json show ?thesis by (auto simp: load_tasks_def)
  next
    case (Inr ts)
    with Json show ?thesis by (simp add: load_tasks_def)
  qed
qed (simp_all add: load_tasks_def)

text \<open>
  C1. \<open>load_tasks\<close> is claimed never to raise, also on a file in an invalid encoding.
  On a file whose bytes are not UTF-8 the read raises \<open>UnicodeDecodeError\<close>, which is
  a \<open>ValueError\<close> but none of the three classes the \<open>except\<close> clause names, so it
  leaves \<open>load_tasks\<close>.
\<close>

theorem load_tasks_invalid_encoding_raises:
  "load_tasks (Some NotUtf8) = Inl UnicodeDecodeError"
  by (simp add: load_tasks_def)

lemma load_loop_raises:
  "bad \<in> set items \<Longrightarrow> load_item bad = Inl e \<Longrightarrow> \<exists>e'. load_loop items acc = Inl e'"
  by (induction items arbitrary: acc) (auto split: sum.splits option.splits)

lemma load_tasks_raising_item:
  assumes "bad \<in> set items" "load_item bad = Inl e"
  shows "load_tasks (Some (Json (PList items))) = Inr []"
proof -
  from load_loop_raises [OF assms] obtain e' where e': "load_loop items [] = Inl e'" by blast
  then have "e' \<in> {TypeError, KeyError}" by (rule load_loop_exn)
  with e' show ?thesis by (auto simp: load_tasks_def)
qed

text \<open>
  C10. If some record of the persisted list has the key \<open>raw_text\<close> but its keys are
  not exactly \<open>raw_text\<close>, \<open>deadline\<close>, \<open>priority\<close>, building the task raises, the
  exception is swallowed and \<open>load_tasks\<close> returns the empty list, whatever else the
  file holds.
\<close>

theorem partial_record_discards_file:
  assumes "PDict kvs \<in> set items"
    and "''raw_text'' \<in> set (map fst kvs)"
    and "set (map fst kvs) \<noteq> {''raw_text'', ''deadline'', ''priority''}"
  shows "load_tasks (Some (Json (PList items))) = Inr []"
proof -
  have "Task_kwargs (PDict kvs) = Inl TypeError"
  proof (cases "set (map fst kvs) \<subseteq> {''raw_text'', ''deadline'', ''priority''}")
    case False then show ?thesis by simp
  next
    case True
    with assms(3) have "\<not> {''raw_text'', ''deadline'', ''priority''} \<subseteq> set (map fst kvs)"
      by blast
    then have "map_of kvs ''raw_text'' = None \<or> map_of kvs ''deadline'' = None
        \<or> map_of kvs ''priority'' = None"
      by (auto simp: map_of_eq_None_iff)
    then show ?thesis by (auto split: option.splits)
  qed
  with assms(2) have "load_item (PDict kvs) = Inl TypeError" by (simp add: load_item_def)
  from load_tasks_raising_item [OF assms(1) this] show ?thesis .
qed

theorem partial_record_discards_file_witness:
  "load_tasks (Some (Json (PList
     [PDict [(''raw_text'', PStr ''pay rent''), (''deadline'', PStr ''today''),
             (''priority'', PStr ''high'')],
      PDict [(''raw_text'', PStr ''call''), (''deadline'', PStr ''tomorrow'')],
      PDict [(''raw_text'', PStr ''read''), (''deadline'', PStr ''unspecified''),
             (''priority'', PStr ''low''), (''done'', PBool False)]]))) = Inr []"
proof -
  have "''priority'' \<notin> set (map fst [(''raw_text'', PStr ''call''), (''deadline'', PStr ''tomorrow'')])"
    by simp
  then have keys: "set (map fst [(''raw_text'', PStr ''call''), (''deadline'', PStr ''tomorrow'')])
      \<noteq> {''raw_text'', ''deadline'', ''priority''}"
    by blast
  show ?thesis
    by (rule partial_record_discards_file [OF _ _ keys]) simp_all
qed

section \<open>Loading records\<close>

text \<open>
  C7. A legacy record (a \<open>description\<close> and no \<open>raw_text\<close>) becomes the task whose
  text is the description, whose deadline is the stored one or \<open>unspecified\<close> and
  whose priority is the stored one or \<open>medium\<close>. The file with the one record
  \<open>{"description": "x", "priority": "high"}\<close> loads as the task \<open>x\<close>, \<open>unspecified\<close>,
  \<open>high\<close>.
\<close>

theorem legacy_record_mapping:
  "(''raw_text'' \<notin> set (map fst kvs) \<and> map_of kvs ''description'' = Some v \<longrightarrow>
      load_item (PDict kvs) =
        Inr (Some \<lparr>raw_text = v,
                   deadline = (case map_of kvs ''deadline'' of
                                 None \<Rightarrow> PStr ''unspecified'' | Some d \<Rightarrow> d),
                   priority = (case map_of kvs ''priority'' of
                                 None \<Rightarrow> PStr ''medium'' | Some p \<Rightarrow> p)\<rparr>)) \<and>
   load_tasks (Some (Json (PList
       [PDict [(''description'', PStr ''x''), (''priority'', PStr ''high'')]]))) =
     Inr [\<lparr>raw_text = PStr ''x'', deadline = PStr ''unspecified'', priority = PStr ''high''\<rparr>]"
proof -
  have general: "load_item (PDict kvs) =
        Inr (Some \<lparr>raw_text = v,
                   deadline = (case map_of kvs ''deadline'' of
                                 None \<Rightarrow> PStr ''unspecified'' | Some d \<Rightarrow> d),
                   priority = (case map_of kvs ''priority'' of
                                 None \<Rightarrow> PStr ''medium'' | Some p \<Rightarrow> p)\<rparr>)"
    if h: "''raw_text'' \<notin> set (map fst kvs)" "map_of kvs ''description'' = Some v"
  proof -
    from h(2) have "''description'' \<in> set (map fst kvs)"
      by (metis map_of_eq_None_iff option.distinct(1) set_map)
    with h show ?thesis by (simp add: load_item_def legacy_task_def)
  qed
  have example: "load_tasks (Some (Json (PList
       [PDict [(''description'', PStr ''x''), (''priority'', PStr ''high'')]]))) =
     Inr [\<lparr>raw_text = PStr ''x'', deadline = PStr ''unspecified'', priority = PStr ''high''\<rparr>]"
    by (simp add: load_tasks_def load_item_def legacy_task_def)
  from general example show ?thesis by blast
qed

theorem legacy_record_mapping_witness:
  "load_item (PDict [(''description'', PStr ''x''), (''deadline'', PStr ''friday'')]) =
     Inr (Some \<lparr>raw_text = PStr ''x'', deadline = PStr ''friday'', priority = PStr ''medium''\<rparr>)"
  using legacy_record_mapping
    [of "[(''description'', PStr ''x''), (''deadline'', PStr ''friday'')]" "PStr ''x''"]
  by simp

lemma load_item_unrecognised: "unrecognised item \<Longrightarrow> load_item item = Inr None"
  by (cases item) (auto simp: load_item_def)

lemma load_loop_skips:
  "load_loop (filter (\<lambda>i. \<not> unrecognised i) items) acc = load_loop items acc"
  by (induction items arbitrary: acc)
     (auto simp: load_item_unrecognised split: sum.splits option.splits)

text \<open>
  C4. A record with neither a \<open>raw_text\<close> nor a \<open>description\<close> field is passed over:
  loading a persisted list gives what loading the list without these records gives,
  so such a record neither adds a task nor stops the load. In the example the second
  and the third record are passed over and the first and the last are loaded.
\<close>

theorem unrecognised_records_skipped:
  "load_tasks (Some (Json (PList items))) =
     load_tasks (Some (Json (PList (filter (\<lambda>i. \<not> unrecognised i) items)))) \<and>
   load_tasks (Some (Json (PList
       [PDict [(''raw_text'', PStr ''a''), (''deadline'', PStr ''today''),
               (''priority'', PStr ''high'')],
        PDict [(''title'', PStr ''b'')],
        PDict [],
        PDict [(''description'', PStr ''c'')]]))) =
     Inr [\<lparr>raw_text = PStr ''a'', deadline = PStr ''today'', priority = PStr ''high''\<rparr>,
          \<lparr>raw_text = PStr ''c'', deadline = PStr ''unspecified'', priority = PStr ''medium''\<rparr>]"
  by (simp add: load_tasks_def load_loop_skips load_item_def legacy_task_def)

lemma load_item_task_dict: "load_item (task_dict t) = Inr (Some t)"
  by (simp add: load_item_def task_dict_def)

lemma load_loop_task_dicts: "load_loop (map task_dict ts) acc = Inr (acc @ ts)"
  by (induction ts arbitrary: acc) (simp_all add: load_item_task_dict)


text \<open>
  C2. Saving a sequence of valid tasks and loading the file gives the same sequence,
  field for field and in the same order.
\<close>

theorem save_load_round_trip:
  "list_all valid_task T \<Longrightarrow> load_tasks (save_tasks T) = Inr T"
  by (simp add: load_tasks_def save_tasks_def load_loop_task_dicts)

theorem save_load_round_trip_witness:
  "list_all valid_task [parse_task ''Pay rent TODAY'', parse_task ''call mum, not urgent'']
   \<and> load_tasks (save_tasks [parse_task ''Pay rent TODAY'', parse_task ''call mum, not urgent''])
     = Inr [parse_task ''Pay rent TODAY'', parse_task ''call mum, not urgent'']"
proof -
  have v: "list_all valid_task [parse_task ''Pay rent TODAY'', parse_task ''call mum, not urgent'']"
    by code_simp
  from v save_load_round_trip [OF v] show ?thesis by simp
qed

section \<open>The priority of a stored record\<close>









section \<open>Deleting a task\<close>










section \<open>Empty input\<close>

lemma lower_char_space: "isspace c \<Longrightarrow> lower_char c = c"
  by (auto simp: isspace_def lower_char_def Let_def)

lemma lower_all_space: "list_all isspace s \<Longrightarrow> lower s = s"
  by (induction s) (simp_all add: lower_def lower_char_space)

lemma strip_all_space: "list_all isspace s \<Longrightarrow> strip s = []"
proof -
  assume "list_all isspace s"
  then have d: "dropWhile isspace s = []" by (simp add: list_all_iff)
  show ?thesis unfolding strip_def d by simp
qed

lemma strip_empty_iff: "strip s = [] \<longleftrightarrow> list_all isspace s"
proof
  assume "strip s = []"
  then have "dropWhile isspace (rev (dropWhile isspace s)) = []" by (simp add: strip_def)
  then have a: "\<forall>c\<in>set (dropWhile isspace s). isspace c"
    by (simp add: dropWhile_eq_Nil_conv)
  have "dropWhile isspace s = []"
  proof (cases "dropWhile isspace s")
    case (Cons c cs)
    then have "\<not> isspace c" by (metis hd_dropWhile list.distinct(1) list.sel(1))
    with a Cons show ?thesis by simp
  qed simp
  then show "list_all isspace s" by (simp add: dropWhile_eq_Nil_conv list_all_iff)
qed (rule strip_all_space)

lemma any_in_all_space:
  assumes "list_all isspace s" "list_all (\<lambda>p. \<not> list_all isspace p) ps"
  shows "\<not> any_in ps s"
proof
  assume "any_in ps s"
  then obtain p where p: "p \<in> set ps" "sublist p s" unfolding any_in_iff by blast
  from p(2) have "set p \<subseteq> set s" by (rule set_mono_sublist)
  with assms(1) have "list_all isspace p" by (auto simp: list_all_iff)
  with assms(2) p(1) show False by (auto simp: list_all_iff)
qed

lemma extract_priority_all_space:
  assumes "list_all isspace s" shows "extract_priority s = ''medium''"
proof -
  have "list_all (\<lambda>p. \<not> list_all isspace p) LOW_PRIORITY_PHRASES"
    by (simp add: LOW_PRIORITY_PHRASES_def isspace_def)
  moreover have "list_all (\<lambda>p. \<not> list_all isspace p) PRIORITY_KEYWORDS_high"
    by (simp add: PRIORITY_KEYWORDS_high_def isspace_def)
  ultimately show ?thesis
    using assms any_in_all_space [of s] by (simp add: extract_priority_def lower_all_space)
qed

lemma matches_all_space:
  "starts_non_space r \<Longrightarrow> list_all isspace s \<Longrightarrow> matches r s = []"
proof (induction r arbitrary: s)
  case (Lit l)
  then obtain c l' where l: "l = c # l'" "\<not> isspace c" by (cases l) auto
  with Lit show ?case by (cases s) auto
qed simp_all

lemma search_all_space:
  "starts_non_space r \<Longrightarrow> list_all isspace s \<Longrightarrow> search r s = None"
  by (induction s) (simp_all add: matches_all_space)

lemma first_match_all_space:
  "list_all starts_non_space rs \<Longrightarrow> list_all isspace s \<Longrightarrow> first_match rs s = ''unspecified''"
  by (induction rs) (simp_all add: search_all_space)

lemma extract_deadline_all_space:
  assumes "list_all isspace s" shows "extract_deadline s = ''unspecified''"
proof -
  have "list_all starts_non_space DEADLINE_REGEXES"
    by (simp add: DEADLINE_REGEXES_def isspace_def)
  with assms show ?thesis
    by (simp add: extract_deadline_def lower_all_space first_match_all_space)
qed

text \<open>
  C9. \<open>parse_task\<close> does not check for emptiness: on an empty or white-space-only
  input it builds the task with text \<open>""\<close>, deadline \<open>unspecified\<close> and priority
  \<open>medium\<close>. The check is in \<open>add_task\<close>: on such an input it prints the warning
  and changes neither the store nor the file; on any other input it appends the task
  parsed from the stripped text and saves.
\<close>

theorem parse_task_no_emptiness_check:
  "(list_all isspace user_input \<longrightarrow>
      parse_task user_input =
        \<lparr>raw_text = PStr [], deadline = PStr ''unspecified'', priority = PStr ''medium''\<rparr>) \<and>
   (list_all isspace typed \<longrightarrow>
      add_task typed st = st\<lparr>printed := printed st @ [EmptyTaskWarning]\<rparr>) \<and>
   (\<not> list_all isspace typed \<longrightarrow>
      add_task typed st =
        st\<lparr>store := store st @ [parse_task (strip typed)],
           disk_file := save_tasks (store st @ [parse_task (strip typed)]),
           printed := printed st @ [TaskAdded]\<rparr>)"
proof (intro conjI impI)
  assume "list_all isspace user_input"
  then show "parse_task user_input =
        \<lparr>raw_text = PStr [], deadline = PStr ''unspecified'', priority = PStr ''medium''\<rparr>"
    by (simp add: parse_task_def strip_all_space extract_deadline_all_space
        extract_priority_all_space)
next
  assume "list_all isspace typed"
  then show "add_task typed st = st\<lparr>printed := printed st @ [EmptyTaskWarning]\<rparr>"
    by (simp add: add_task_def strip_all_space)
next
  assume "\<not> list_all isspace typed"
  then have "strip typed \<noteq> []" by (simp add: strip_empty_iff)
  then show "add_task typed st =
        st\<lparr>store := store st @ [parse_task (strip typed)],
           disk_file := save_tasks (store st @ [parse_task (strip typed)]),
           printed := printed st @ [TaskAdded]\<rparr>"
    by (simp add: add_task_def Let_def)
qed

theorem parse_task_no_emptiness_check_witness:
  "parse_task '' '' =
     \<lparr>raw_text = PStr [], deadline = PStr ''unspecified'', priority = PStr ''medium''\<rparr> \<and>
   parse_task [] =
     \<lparr>raw_text = PStr [], deadline = PStr ''unspecified'', priority = PStr ''medium''\<rparr> \<and>
   add_task ''   '' \<lparr>store = [], disk_file = None, printed = []\<rparr> =
     \<lparr>store = [], disk_file = None, printed = [EmptyTaskWarning]\<rparr> \<and>
   store (add_task '' buy milk '' \<lparr>store = [], disk_file = None, printed = []\<rparr>) =
     [parse_task ''buy milk'']"
proof -
  have a: "list_all isspace '' ''" "list_all isspace []" "list_all isspace ''   ''"
    by (simp_all add: isspace_def)
  have b: "\<not> list_all isspace '' buy milk ''" by (simp add: isspace_def)
  have c: "strip '' buy milk '' = ''buy milk''" by (simp add: strip_def isspace_def)
  from a b c
    parse_task_no_emptiness_check [of "'' ''" "''   ''" "\<lparr>store = [], disk_file = None, printed = []\<rparr>"]
    parse_task_no_emptiness_check [of "[]" "'' buy milk ''" "\<lparr>store = [], disk_file = None, printed = []\<rparr>"]
  show ?thesis by simp
qed

section \<open>The deadline patterns and their phrases\<close>

lemma digits_prefix_iff:
  "(\<exists>u. s = u @ t \<and> u \<noteq> [] \<and> list_all isdigit u) \<longleftrightarrow>
   (\<exists>k. 1 \<le> k \<and> k \<le> length (takeWhile isdigit s) \<and> t = drop k s)"
proof
  assume "\<exists>u. s = u @ t \<and> u \<noteq> [] \<and> list_all isdigit u"
  then obtain u where u: "s = u @ t" "u \<noteq> []" "list_all isdigit u" by blast
  from u(3) have "takeWhile isdigit (u @ t) = u @ takeWhile isdigit t"
    by (simp add: takeWhile_append2 list_all_iff)
  with u have "length u \<le> length (takeWhile isdigit s)" by simp
  moreover from u have "1 \<le> length u" by (cases u) auto
  moreover from u have "t = drop (length u) s" by simp
  ultimately show "\<exists>k. 1 \<le> k \<and> k \<le> length (takeWhile isdigit s) \<and> t = drop k s" by blast
next
  assume "\<exists>k. 1 \<le> k \<and> k \<le> length (takeWhile isdigit s) \<and> t = drop k s"
  then obtain k where k: "1 \<le> k" "k \<le> length (takeWhile isdigit s)" "t = drop k s" by blast
  have "length (takeWhile isdigit s) \<le> length s" by (rule length_takeWhile_le)
  with k have ks: "k \<le> length s" by simp
  have "take k s = take k (takeWhile isdigit s)"
    by (metis k(2) append_eq_conv_conj takeWhile_dropWhile_id take_append diff_is_0_eq take_0 append_Nil2 take_all)
  then have "set (take k s) \<subseteq> set (takeWhile isdigit s)" by (metis set_take_subset)
  then have "list_all isdigit (take k s)" by (auto simp: list_all_iff dest: set_takeWhileD)
  moreover from k ks have "take k s \<noteq> []" by (cases s) auto
  moreover from k have "s = take k s @ t" by simp
  ultimately show "\<exists>u. s = u @ t \<and> u \<noteq> [] \<and> list_all isdigit u" by blast
qed

lemma matches_set: "set (matches r s) = {t. \<exists>u. s = u @ t \<and> u \<in> lang r}"
proof (induction r arbitrary: s)
  case (Lit l)
  show ?case by (auto simp: prefix_def)
next
  case Digits
  have "set (matches Digits s) =
      {t. \<exists>k. 1 \<le> k \<and> k \<le> length (takeWhile isdigit s) \<and> t = drop k s}"
    by (auto simp: image_iff)
  also have "\<dots> = {t. \<exists>u. s = u @ t \<and> u \<noteq> [] \<and> list_all isdigit u}"
    using digits_prefix_iff [of s] by simp
  finally show ?case by simp
next
  case (Alt rs)
  then show ?case by auto
next
  case (Seq a b)
  show ?case
  proof (rule set_eqI)
    fix t
    have "t \<in> set (matches (Seq a b) s) \<longleftrightarrow> (\<exists>m \<in> set (matches a s). t \<in> set (matches b m))"
      by auto
    also have "\<dots> \<longleftrightarrow> (\<exists>m u v. s = u @ m \<and> u \<in> lang a \<and> m = v @ t \<and> v \<in> lang b)"
      unfolding Seq.IH by blast
    also have "\<dots> \<longleftrightarrow> (\<exists>w. s = w @ t \<and> w \<in> lang (Seq a b))"
    proof
      assume "\<exists>m u v. s = u @ m \<and> u \<in> lang a \<and> m = v @ t \<and> v \<in> lang b"
      then obtain u v where "s = (u @ v) @ t" "u \<in> lang a" "v \<in> lang b" by auto
      then show "\<exists>w. s = w @ t \<and> w \<in> lang (Seq a b)" by (intro exI [of _ "u @ v"]) auto
    next
      assume "\<exists>w. s = w @ t \<and> w \<in> lang (Seq a b)"
      then obtain u v where "s = u @ (v @ t)" "u \<in> lang a" "v \<in> lang b" by auto
      then show "\<exists>m u v. s = u @ m \<and> u \<in> lang a \<and> m = v @ t \<and> v \<in> lang b" by blast
    qed
    finally show "t \<in> set (matches (Seq a b) s) \<longleftrightarrow> t \<in> {t. \<exists>u. s = u @ t \<and> u \<in> lang (Seq a b)}"
      by simp
  qed
qed

lemma matches_Nil_iff: "matches r s = [] \<longleftrightarrow> \<not> (\<exists>u t. s = u @ t \<and> u \<in> lang r)"
proof -
  have "matches r s = [] \<longleftrightarrow> set (matches r s) = {}" by simp
  then show ?thesis unfolding matches_set by blast
qed

lemma matches_hd:
  assumes "matches r s = rest # others"
  shows "take (length s - length rest) s \<in> lang r \<and> prefix (take (length s - length rest) s) s"
proof -
  from assms have "rest \<in> set (matches r s)" by simp
  then obtain u where u: "s = u @ rest" "u \<in> lang r" unfolding matches_set by blast
  then have "take (length s - length rest) s = u" by simp
  with u show ?thesis by (simp add: take_is_prefix)
qed

lemma search_Some: "search r s = Some m \<Longrightarrow> m \<in> lang r \<and> sublist m s"
proof (induction s)
  case Nil
  then obtain rest others where "matches r [] = rest # others" "m = []"
    by (auto split: list.splits)
  with matches_hd [of r "[]" rest others] show ?case by simp
next
  case (Cons c cs)
  show ?case
  proof (cases "matches r (c # cs)")
    case Nil
    with Cons show ?thesis by (auto simp: sublist_Cons_right)
  next
    case (Cons rest others)
    with Cons.prems have m: "m = take (length (c # cs) - length rest) (c # cs)" by simp
    from matches_hd [OF Cons] m show ?thesis by (auto dest: prefix_imp_sublist)
  qed
qed

lemma search_None: "search r s = None \<longleftrightarrow> \<not> occurs r s"
proof (induction s)
  case Nil
  have "search r [] = None \<longleftrightarrow> matches r [] = []" by (simp split: list.splits)
  also have "\<dots> \<longleftrightarrow> [] \<notin> lang r" unfolding matches_Nil_iff by simp
  finally show ?case by (auto simp: occurs_def)
next
  case (Cons c cs)
  have pre: "matches r (c # cs) = [] \<longleftrightarrow> \<not> (\<exists>m. m \<in> lang r \<and> prefix m (c # cs))"
    unfolding matches_Nil_iff prefix_def by blast
  have "search r (c # cs) = None \<longleftrightarrow> matches r (c # cs) = [] \<and> search r cs = None"
    by (simp split: list.splits)
  also have "\<dots> \<longleftrightarrow> \<not> (\<exists>m. m \<in> lang r \<and> prefix m (c # cs)) \<and> \<not> occurs r cs"
    unfolding pre Cons.IH ..
  also have "\<dots> \<longleftrightarrow> \<not> occurs r (c # cs)"
    unfolding occurs_def sublist_Cons_right by blast
  finally show ?case .
qed

lemma first_match_unspecified:
  "\<forall>r\<in>set rs. \<not> occurs r s \<Longrightarrow> first_match rs s = ''unspecified''"
  by (induction rs) (simp_all add: search_None [symmetric])

lemma first_match_first:
  "i < length rs \<Longrightarrow> occurs (rs ! i) s \<Longrightarrow> \<forall>j<i. \<not> occurs (rs ! j) s \<Longrightarrow>
     first_match rs s \<in> lang (rs ! i) \<and> sublist (first_match rs s) s"
proof (induction rs arbitrary: i)
  case Nil
  then show ?case by simp
next
  case (Cons r rs)
  show ?case
  proof (cases i)
    case 0
    with Cons.prems have "search r s \<noteq> None" by (simp add: search_None)
    then obtain m where m: "search r s = Some m" by blast
    from search_Some [OF m] m 0 show ?thesis by simp
  next
    case (Suc k)
    with Cons.prems have "\<not> occurs r s" by auto
    then have n: "search r s = None" by (simp add: search_None)
    from Suc Cons.prems have "k < length rs" "occurs (rs ! k) s" "\<forall>j<k. \<not> occurs (rs ! j) s"
      by auto
    from Cons.IH [OF this] n Suc show ?thesis by simp
  qed
qed

lemma lang_Seq_Lit: "lang (Seq (Lit l) r) = {l @ w | w. w \<in> lang r}"
  by auto

lemma lang_Alt_Lits: "lang (Alt (map Lit ws)) = set ws"
  by (induction ws) auto

lemma lang_weekdays: "lang weekdays = weekday_names"
proof -
  have w: "weekdays = Alt (map Lit [''monday'', ''tuesday'', ''wednesday'', ''thursday'',
      ''friday'', ''saturday'', ''sunday''])"
    by (simp add: weekdays_def)
  show ?thesis unfolding w lang_Alt_Lits weekday_names_def by simp
qed

lemma lang_prefix_weekday:
  "lang (Seq (Lit l) weekdays) = {l @ d | d. d \<in> weekday_names}"
  by (simp only: lang_Seq_Lit lang_weekdays)

lemma lang_units:
  "lang (Alt [Lit ''day'', Lit ''days'', Lit ''week'', Lit ''weeks'', Lit ''month'', Lit ''months''])
     = {''day'', ''days'', ''week'', ''weeks'', ''month'', ''months''}"
proof -
  have "Alt [Lit ''day'', Lit ''days'', Lit ''week'', Lit ''weeks'', Lit ''month'', Lit ''months'']
      = Alt (map Lit [''day'', ''days'', ''week'', ''weeks'', ''month'', ''months''])"
    by simp
  then show ?thesis by (simp only: lang_Alt_Lits) simp
qed

lemma lang_within:
  "lang (Seq (Lit ''within '') (Seq Digits (Seq (Lit '' '') r))) =
     {''within '' @ n @ '' '' @ u | n u. n \<noteq> [] \<and> list_all isdigit n \<and> u \<in> lang r}"
proof (rule set_eqI)
  fix w
  have "w \<in> lang (Seq (Lit ''within '') (Seq Digits (Seq (Lit '' '') r))) \<longleftrightarrow>
      (\<exists>x. w = ''within '' @ x \<and> x \<in> lang (Seq Digits (Seq (Lit '' '') r)))"
    unfolding lang_Seq_Lit by blast
  also have "\<dots> \<longleftrightarrow> (\<exists>n y. w = ''within '' @ n @ y \<and> n \<in> lang Digits \<and> y \<in> lang (Seq (Lit '' '') r))"
    unfolding lang.simps(4) by blast
  also have "\<dots> \<longleftrightarrow> (\<exists>n u. w = ''within '' @ n @ '' '' @ u \<and> n \<in> lang Digits \<and> u \<in> lang r)"
    unfolding lang_Seq_Lit by blast
  finally show "w \<in> lang (Seq (Lit ''within '') (Seq Digits (Seq (Lit '' '') r))) \<longleftrightarrow>
      w \<in> {''within '' @ n @ '' '' @ u | n u. n \<noteq> [] \<and> list_all isdigit n \<and> u \<in> lang r}"
    by simp
qed

lemma lang_next_period:
  "lang (Seq (Lit ''next '') (Alt [Lit ''week'', Lit ''month''])) = {''next week'', ''next month''}"
  unfolding lang_Seq_Lit by auto

lemma lang_DEADLINE_REGEXES: "map lang DEADLINE_REGEXES = deadline_phrases"
  unfolding DEADLINE_REGEXES_def deadline_phrases_def list.map
  by (simp only: lang_within lang_units lang_next_period lang_prefix_weekday lang.simps(1))

lemma occurs_deadline_phrase:
  assumes "i < length deadline_phrases"
  shows "occurs (DEADLINE_REGEXES ! i) s \<longleftrightarrow> (\<exists>m\<in>deadline_phrases ! i. sublist m s)"
proof -
  from assms have "i < length DEADLINE_REGEXES"
    unfolding lang_DEADLINE_REGEXES [symmetric] by simp
  then have "lang (DEADLINE_REGEXES ! i) = deadline_phrases ! i"
    unfolding lang_DEADLINE_REGEXES [symmetric] by simp
  then show ?thesis by (auto simp: occurs_def)
qed

lemma no_deadline_phrase:
  assumes "list_all (\<lambda>r. search r s = None) DEADLINE_REGEXES"
  shows "\<forall>P\<in>set deadline_phrases. \<not> (\<exists>m\<in>P. sublist m s)"
proof
  fix P assume "P \<in> set deadline_phrases"
  then obtain r where r: "r \<in> set DEADLINE_REGEXES" "P = lang r"
    unfolding lang_DEADLINE_REGEXES [symmetric] by auto
  with assms have "search r s = None" by (simp add: list_all_iff)
  then have "\<not> occurs r s" by (simp add: search_None)
  with r show "\<not> (\<exists>m\<in>P. sublist m s)" by (auto simp: occurs_def)
qed

text \<open>
  The order of the patterns. \<open>extract_deadline\<close> lower-cases its input and tries the
  seven patterns in the listed order. If the \<open>i\<close>-th pattern is the first in the list
  with a phrase somewhere in the text, the result is a phrase of that pattern and a
  piece of the lower-cased text; if no pattern has one, the result is \<open>unspecified\<close>.
  On \<open>today or tomorrow\<close> the result is \<open>today\<close>.
\<close>

lemma extract_deadline_first_pattern:
  "(i < length deadline_phrases \<and> (\<exists>m\<in>deadline_phrases ! i. sublist m (lower t)) \<and>
    (\<forall>j<i. \<not> (\<exists>m\<in>deadline_phrases ! j. sublist m (lower t))) \<longrightarrow>
      extract_deadline t \<in> deadline_phrases ! i \<and> sublist (extract_deadline t) (lower t)) \<and>
   ((\<forall>P\<in>set deadline_phrases. \<not> (\<exists>m\<in>P. sublist m (lower t))) \<longrightarrow>
      extract_deadline t = ''unspecified'') \<and>
   extract_deadline ''today or tomorrow'' = ''today''"
proof -
  have len: "length DEADLINE_REGEXES = length deadline_phrases"
    unfolding lang_DEADLINE_REGEXES [symmetric] by simp
  have first: "extract_deadline t \<in> deadline_phrases ! i \<and>
      sublist (extract_deadline t) (lower t)"
    if h: "i < length deadline_phrases" "\<exists>m\<in>deadline_phrases ! i. sublist m (lower t)"
      "\<forall>j<i. \<not> (\<exists>m\<in>deadline_phrases ! j. sublist m (lower t))"
  proof -
    from h(1) have a: "i < length DEADLINE_REGEXES" by (simp add: len)
    from h(1,2) have b: "occurs (DEADLINE_REGEXES ! i) (lower t)"
      by (simp add: occurs_deadline_phrase)
    have c: "\<forall>j<i. \<not> occurs (DEADLINE_REGEXES ! j) (lower t)"
    proof (intro allI impI)
      fix j assume j: "j < i"
      with h(1) have "j < length deadline_phrases" by simp
      from occurs_deadline_phrase [OF this] h(3) j
      show "\<not> occurs (DEADLINE_REGEXES ! j) (lower t)" by simp
    qed
    from a have "lang (DEADLINE_REGEXES ! i) = deadline_phrases ! i"
      unfolding lang_DEADLINE_REGEXES [symmetric] by simp
    with first_match_first [OF a b c] show ?thesis by (simp add: extract_deadline_def)
  qed
  have none: "extract_deadline t = ''unspecified''"
    if h: "\<forall>P\<in>set deadline_phrases. \<not> (\<exists>m\<in>P. sublist m (lower t))"
  proof -
    have "\<forall>r\<in>set DEADLINE_REGEXES. \<not> occurs r (lower t)"
    proof
      fix r assume "r \<in> set DEADLINE_REGEXES"
      then have "lang r \<in> set deadline_phrases"
        unfolding lang_DEADLINE_REGEXES [symmetric] by simp
      with h show "\<not> occurs r (lower t)" by (auto simp: occurs_def)
    qed
    then show ?thesis by (simp add: extract_deadline_def first_match_unspecified)
  qed
  have example: "extract_deadline ''today or tomorrow'' = ''today''"
    by (simp add: extract_deadline_def DEADLINE_REGEXES_def lower_def lower_char_def)
  from first none example show ?thesis by blast
qed

lemma extract_deadline_first_pattern_example:
  "extract_deadline ''Today or Tomorrow'' = ''today'' \<and>
   sublist ''tomorrow'' (lower ''Today or Tomorrow'') \<and>
   extract_deadline ''buy milk'' = ''unspecified''"
proof -
  have l: "lower ''Today or Tomorrow'' = ''today or tomorrow''" by code_simp
  have len: "0 < length deadline_phrases" by (simp add: deadline_phrases_def)
  have p0: "deadline_phrases ! 0 = {''today''}" by (simp add: deadline_phrases_def)
  have s: "sublist ''today'' (lower ''Today or Tomorrow'')"
    unfolding l str_in_iff_sublist [symmetric] by simp
  have s2: "sublist ''tomorrow'' (lower ''Today or Tomorrow'')"
    unfolding l str_in_iff_sublist [symmetric] by simp
  have "list_all (\<lambda>r. search r (lower ''buy milk'') = None) DEADLINE_REGEXES"
    by (simp add: DEADLINE_REGEXES_def weekdays_def lower_def lower_char_def)
  then have none: "\<forall>P\<in>set deadline_phrases. \<not> (\<exists>m\<in>P. sublist m (lower ''buy milk''))"
    by (rule no_deadline_phrase)
  from len s have "extract_deadline ''Today or Tomorrow'' = ''today''"
    using extract_deadline_first_pattern [of 0 "''Today or Tomorrow''"] unfolding p0 by simp
  moreover from none have "extract_deadline ''buy milk'' = ''unspecified''"
    using extract_deadline_first_pattern [of 0 "''buy milk''"] by blast
  ultimately show ?thesis using s2 by simp
qed

text \<open>
  C6. The pattern that wins is claimed to return the substring it matched, so that a
  text with \<open>within 3 days\<close> gives \<open>within 3 days\<close>. The group of the third pattern
  lists \<open>day\<close> before \<open>days\<close>, \<open>week\<close> before \<open>weeks\<close> and \<open>month\<close> before
  \<open>months\<close>, and nothing follows the group, so the matcher stops at the singular and
  never reaches the plural: the phrase \<open>within 3 days\<close> of the third pattern is in the
  text, no earlier pattern has a phrase there, and the result is \<open>within 3 day\<close>.
\<close>

theorem extract_deadline_plural_unit_cut:
  "extract_deadline ''submit report within 3 days'' = ''within 3 day'' \<and>
   ''within 3 days'' \<in> deadline_phrases ! 2 \<and>
   sublist ''within 3 days'' (lower ''submit report within 3 days'') \<and>
   search (DEADLINE_REGEXES ! 0) (lower ''submit report within 3 days'') = None \<and>
   search (DEADLINE_REGEXES ! 1) (lower ''submit report within 3 days'') = None \<and>
   extract_deadline ''Back within 12 weeks'' = ''within 12 week'' \<and>
   extract_deadline ''within 2 months'' = ''within 2 month''"
proof -
  have l: "lower ''submit report within 3 days'' = ''submit report within 3 days''"
    by (simp add: lower_def lower_char_def)
  have a: "extract_deadline ''submit report within 3 days'' = ''within 3 day''"
    by (simp add: extract_deadline_def DEADLINE_REGEXES_def lower_def lower_char_def isdigit_def)
  have b: "''within 3 days'' \<in> deadline_phrases ! 2"
  proof -
    have "\<exists>n u. ''within 3 days'' = ''within '' @ n @ '' '' @ u \<and> n \<noteq> [] \<and>
        list_all isdigit n \<and>
        u \<in> {''day'', ''days'', ''week'', ''weeks'', ''month'', ''months''}"
      by (rule exI [of _ "''3''"], rule exI [of _ "''days''"]) (simp add: isdigit_def)
    then show ?thesis by (simp add: deadline_phrases_def)
  qed
  have c: "sublist ''within 3 days'' (lower ''submit report within 3 days'')"
    unfolding l str_in_iff_sublist [symmetric] by simp
  have d: "search (DEADLINE_REGEXES ! 0) (lower ''submit report within 3 days'') = None"
    "search (DEADLINE_REGEXES ! 1) (lower ''submit report within 3 days'') = None"
    unfolding l by (simp_all add: DEADLINE_REGEXES_def)
  have e: "extract_deadline ''Back within 12 weeks'' = ''within 12 week''"
    by code_simp
  have f: "extract_deadline ''within 2 months'' = ''within 2 month''"
    by (simp add: extract_deadline_def DEADLINE_REGEXES_def lower_def lower_char_def isdigit_def)
  from a b c d e f show ?thesis by simp
qed

end
